theory Spec2Isabelle
  imports Main "HOL-Library.Sublist" "HOL-Library.AList"
begin

section \<open>Strings, paths and URLs as the code uses them\<close>

text \<open>
  The source is \<^verbatim>\<open>cyberdrop_dl/client/downloaders.py\<close>. Python strings are modelled
  as \<^typ>\<open>string\<close>; the few string operations the file uses are written out below
  with Python's behaviour.
\<close>

text \<open>\<^verbatim>\<open>sub in s\<close> for strings: \<open>sub\<close> occurs in \<open>s\<close> as a contiguous slice.\<close>

fun is_substr :: "string \<Rightarrow> string \<Rightarrow> bool" where
  "is_substr sub [] = (sub = [])"
| "is_substr sub (c # cs) = (prefix sub (c # cs) \<or> is_substr sub cs)"

text \<open>\<^verbatim>\<open>s.split(sep)\<close> for a one-character separator; the result is never empty.\<close>

fun split_char :: "char \<Rightarrow> string \<Rightarrow> string list" where
  "split_char sep [] = [[]]"
| "split_char sep (c # cs) =
     (if c = sep then [] # split_char sep cs
      else (c # hd (split_char sep cs)) # tl (split_char sep cs))"

text \<open>\<^verbatim>\<open>sep.join(parts)\<close> for a one-character separator.\<close>

fun join_char :: "char \<Rightarrow> string list \<Rightarrow> string" where
  "join_char sep [] = []"
| "join_char sep [x] = x"
| "join_char sep (x # y # ys) = x @ sep # join_char sep (y # ys)"

text \<open>\<^verbatim>\<open>s.split(sep)[0]\<close> for a longer separator: the text before its first occurrence.\<close>

fun before_first :: "string \<Rightarrow> string \<Rightarrow> string" where
  "before_first sep [] = []"
| "before_first sep (c # cs) = (if prefix sep (c # cs) then [] else c # before_first sep cs)"

text \<open>
  \<^verbatim>\<open>s.replace(old, new)\<close>: every occurrence, left to right, without overlap. The
  source only calls it with a non-empty \<open>old\<close>; for an empty one this function returns
  \<open>s\<close> (Python would interleave \<open>new\<close>).
\<close>

fun replace_str :: "string \<Rightarrow> string \<Rightarrow> string \<Rightarrow> string" where
  "replace_str old new [] = []"
| "replace_str old new (c # cs) =
     (if old \<noteq> [] \<and> prefix old (c # cs)
      then new @ replace_str old new (drop (length old) (c # cs))
      else c # replace_str old new cs)"

text \<open>\<^verbatim>\<open>s.lower()\<close> on the ASCII letters.\<close>

definition lower_char :: "char \<Rightarrow> char" where
  "lower_char c =
     (if of_char c \<ge> (65::nat) \<and> of_char c \<le> (90::nat)
      then char_of (of_char c + (32::nat)) else c)"

definition lower :: "string \<Rightarrow> string" where
  "lower s = map lower_char s"

text \<open>\<^verbatim>\<open>str(n)\<close> of a non-negative integer (the f-string at line 123).\<close>

fun str_nat :: "nat \<Rightarrow> string" where
  "str_nat n =
     (if n < 10 then [''0123456789'' ! n]
      else str_nat (n div 10) @ [''0123456789'' ! (n mod 10)])"

declare str_nat.simps [simp del]

text \<open>\<^verbatim>\<open>filename.split('.')[-1]\<close>: the text after the last dot, the whole name if it
  has no dot.\<close>

definition after_last_dot :: "string \<Rightarrow> string" where
  "after_last_dot s = last (split_char CHR ''.'' s)"

text \<open>The text before the last dot (empty if the name has no dot).\<close>

definition before_last_dot :: "string \<Rightarrow> string" where
  "before_last_dot s = take (length s - length (after_last_dot s) - 1) s"

text \<open>
  \<^verbatim>\<open>PurePath.stem\<close> of a path whose last component is \<open>name\<close>: pathlib looks for
  the last dot at index \<open>i\<close> and cuts there when \<open>0 < i < len(name) - 1\<close>; otherwise
  the stem is the whole name. File names are single path components (no \<open>/\<close>)
  throughout.
\<close>

definition path_stem :: "string \<Rightarrow> string" where
  "path_stem name =
     (if CHR ''.'' \<in> set name \<and> before_last_dot name \<noteq> [] \<and> after_last_dot name \<noteq> []
      then before_last_dot name else name)"

text \<open>
  \<^verbatim>\<open>p.with_suffix(p.suffix + '.part')\<close>: pathlib removes the suffix and appends the
  new one, which here starts with the old suffix, so the name gains \<open>.part\<close>.
\<close>

definition part_name :: "string \<Rightarrow> string" where
  "part_name name = name @ ''.part''"

text \<open>
  A \<^verbatim>\<open>yarl.URL\<close>, reduced to the parts the file reads: scheme, host and path
  (\<open>str(url)\<close> is \<open>scheme://host/path\<close>). Port, user, query and fragment are not
  modelled, nor is yarl's normalisation of the text it parses; every URL has a host.
\<close>

record url =
  scheme :: string
  host :: string
  path :: string

definition str_url :: "url \<Rightarrow> string" where
  "str_url u = scheme u @ ''://'' @ host u @ path u"

text \<open>\<^verbatim>\<open>url.name\<close>: the last segment of the path.\<close>

definition url_name :: "url \<Rightarrow> string" where
  "url_name u = last (split_char CHR ''/'' (path u))"

text \<open>\<^verbatim>\<open>URL(s)\<close>: the scheme up to \<open>://\<close>, the host up to the next \<open>/\<close>, the rest is
  the path. A text without \<open>://\<close> is kept as a path.\<close>

definition parse_url :: "string \<Rightarrow> url" where
  "parse_url s =
     (if is_substr ''://'' s
      then (let sch = before_first ''://'' s; rest = drop (length sch + 3) s
            in \<lparr>scheme = sch, host = takeWhile (\<lambda>c. c \<noteq> CHR ''/'') rest,
                path = dropWhile (\<lambda>c. c \<noteq> CHR ''/'') rest\<rparr>)
      else \<lparr>scheme = [], host = [], path = s\<rparr>)"

definition with_host :: "url \<Rightarrow> string \<Rightarrow> url" where
  "with_host u h = u\<lparr>host := h\<rparr>"


section \<open>Exceptions, formats and the external collaborators\<close>

text \<open>
  The exceptions the file distinguishes. \<open>FailureException\<close> carries its
  \<^verbatim>\<open>code\<close>. \<open>ClientError\<close> stands for the five other types caught at lines
  160-162 (payload, OS, server-disconnected, timeout and response errors), with the
  \<^verbatim>\<open>code\<close> attribute when the exception has a usable one. The remaining
  constructors are exceptions no handler of the file names.
\<close>

datatype exn =
    FailureException int
  | ClientError "int option"
  | IndexError
  | KeyError
  | ValueError
  | FileNotFoundError
  | OtherException

fun is_failure :: "exn \<Rightarrow> bool" where
  "is_failure (FailureException c) = True"
| "is_failure e = False"

text \<open>What a call of \<^verbatim>\<open>download_file\<close> does in the end: return, or raise.\<close>

datatype outcome = Returned | Raised exn

text \<open>
  \<^verbatim>\<open>FILE_FORMATS\<close> and \<^verbatim>\<open>MAX_FILENAME_LENGTH\<close> are constants of
  \<^verbatim>\<open>base_functions\<close>, which is not among the sources: they are parameters here.
\<close>

record formats =
  Images :: "string set"
  Videos :: "string set"
  Audio :: "string set"
  Other :: "string set"

definition known_ext :: "formats \<Rightarrow> string \<Rightarrow> bool" where
  "known_ext F ext = (ext \<in> Images F \<or> ext \<in> Videos F \<or> ext \<in> Audio F \<or> ext \<in> Other F)"

text \<open>The files of one collection folder: name and size in bytes.\<close>

type_synonym files = "(string \<times> nat) list"

text \<open>
  The arguments of \<^verbatim>\<open>session.download_file\<close> (lines 153-155) that depend on the
  link: the URL, the range header, the original and the final file name, the temporary
  file, the resume point and the lock registry handed over. Referer, throttle,
  progress flag, folder, title and proxy are configuration and are left out.
\<close>

record download_args =
  dl_url :: url
  dl_range :: "string option"
  dl_original :: string
  dl_final :: string
  dl_temp :: string
  dl_resume :: nat
  dl_locks :: "string set"

text \<open>
  The transfer session (\<^verbatim>\<open>DownloadSession\<close>) is an external collaborator. Its
  calls are oracles: each either returns a value or raises. The byte transfer may
  change the files of the folder in any way before it returns or raises.
\<close>

record session =
  get_filesize :: "url \<Rightarrow> exn + int"
  session_get_filename :: "url \<Rightarrow> exn + string"
  get_content_type :: "url \<Rightarrow> exn + string"
  session_download_file :: "download_args \<Rightarrow> files \<Rightarrow> exn option \<times> files"

section \<open>get\_filename (lines 196-240)\<close>

text \<open>Lines 204-206: the length limit.\<close>

definition truncate_filename :: "nat \<Rightarrow> string \<Rightarrow> string" where
  "truncate_filename MAX_FILENAME_LENGTH filename =
     (if length filename > MAX_FILENAME_LENGTH
      then (let fileext = after_last_dot filename
            in take MAX_FILENAME_LENGTH filename @ ''.'' @ fileext)
      else filename)"

text \<open>Lines 224-236: the handler that asks for the content type.\<close>

definition content_type_fallback ::
  "(string \<Rightarrow> string) \<Rightarrow> session \<Rightarrow> url \<Rightarrow> string \<Rightarrow> exn + string" where
  "content_type_fallback sanitize S u filename =
     (case get_content_type S u of
        Inl e \<Rightarrow> (if is_failure e then Inl (FailureException 0) else Inl e)
      | Inr content_type \<Rightarrow>
          if is_substr ''image'' content_type
          then (let ext_temp = last (split_char CHR ''/'' content_type)
                in Inr (sanitize (filename @ ''.'' @ ext_temp)))
          else Inl (FailureException 0))"

text \<open>
  \<^verbatim>\<open>sanitize\<close> is a helper of \<^verbatim>\<open>base_functions\<close> and a parameter here. The
  throttle computed at lines 209-215 only parameterises the session calls and is left
  out.
\<close>

definition get_filename ::
  "formats \<Rightarrow> nat \<Rightarrow> (string \<Rightarrow> string) \<Rightarrow> session \<Rightarrow> url \<Rightarrow> exn + string" where
  "get_filename F MAX_FILENAME_LENGTH sanitize S u =
     (let filename = sanitize (url_name u);
          filename = (if is_substr ''v='' filename then before_first ''v='' filename
                      else filename);
          filename = truncate_filename MAX_FILENAME_LENGTH filename;
          ext = ''.'' @ lower (after_last_dot filename);
          resolved =
            (if \<not> known_ext F ext
             then (case session_get_filename S u of
                     Inl e \<Rightarrow>
                       if is_failure e then content_type_fallback sanitize S u filename
                       else Inl e
                   | Inr answer \<Rightarrow>
                       (let filename = sanitize answer;
                            ext = ''.'' @ lower (after_last_dot filename)
                        in if \<not> known_ext F ext
                           then content_type_fallback sanitize S u filename
                           else Inr filename))
             else Inr filename)
      in case resolved of
           Inl e \<Rightarrow> Inl e
         | Inr filename \<Rightarrow>
             (let ext = ''.'' @ lower (after_last_dot filename)
              in Inr (replace_str (''.'' @ after_last_dot filename) ext filename)))"

section \<open>The Downloader and the factory (lines 49-71, 290-304)\<close>

type_synonym album = "(url \<times> url) list"

record runtime_args =
  rt_attempts :: int
  rt_disable_attempt_limit :: bool
  rt_mark_downloaded :: bool

text \<open>
  The fields of a \<^verbatim>\<open>Downloader\<close> the file reads afterwards. Its mutable parts
  (the attempt counters, the lock registry, the ledger) are in the world below.
\<close>

record downloader =
  album_obj :: album
  title :: string
  max_workers :: int
  attempts :: int
  disable_attempt_limit :: bool
  mark_downloaded :: bool

text \<open>
  \<^verbatim>\<open>Downloader.__init__\<close>. It builds \<^verbatim>\<open>asyncio.Semaphore(max_workers)\<close>, which
  raises \<^verbatim>\<open>ValueError\<close> for a negative value.
\<close>

definition Downloader_init :: "album \<Rightarrow> string \<Rightarrow> int \<Rightarrow> runtime_args \<Rightarrow> exn + downloader" where
  "Downloader_init album_obj' title' max_workers' rt =
     (if max_workers' < 0 then Inl ValueError
      else Inr \<lparr>album_obj = album_obj', title = title', max_workers = max_workers',
                attempts = rt_attempts rt,
                disable_attempt_limit = rt_disable_attempt_limit rt,
                mark_downloaded = rt_mark_downloaded rt\<rparr>)"

text \<open>Lines 299-303: one Downloader per album of a domain.\<close>

fun album_downloaders ::
  "int \<Rightarrow> runtime_args \<Rightarrow> (string \<times> album) list \<Rightarrow> exn + downloader list" where
  "album_downloaders max_workers_temp rt [] = Inr []"
| "album_downloaders max_workers_temp rt ((title', album_obj') # rest) =
     (case Downloader_init album_obj' title' max_workers_temp rt of
        Inl e \<Rightarrow> Inl e
      | Inr downloader \<Rightarrow>
          (case album_downloaders max_workers_temp rt rest of
             Inl e \<Rightarrow> Inl e
           | Inr downloaders \<Rightarrow> Inr (downloader # downloaders)))"

text \<open>
  \<^verbatim>\<open>get_downloaders\<close>: \<^verbatim>\<open>Cascade.domains\<close> is a dictionary from domain to its
  albums (by title), read in order.
\<close>

fun get_downloaders ::
  "(string \<times> (string \<times> album) list) list \<Rightarrow> int \<Rightarrow> runtime_args \<Rightarrow> exn + downloader list" where
  "get_downloaders [] max_workers' rt = Inr []"
| "get_downloaders ((domain, albums) # rest) max_workers' rt =
     (let max_workers_temp =
            (if is_substr ''bunkr'' domain \<or> is_substr ''pixeldrain'' domain
                \<or> is_substr ''anonfiles'' domain
             then (if max_workers' > 2 then 2 else max_workers')
             else max_workers')
      in case album_downloaders max_workers_temp rt albums of
           Inl e \<Rightarrow> Inl e
         | Inr downloaders \<Rightarrow>
             (case get_downloaders rest max_workers' rt of
                Inl e \<Rightarrow> Inl e
              | Inr others \<Rightarrow> Inr (downloaders @ others)))"


section \<open>The state the orchestrator works on\<close>

text \<open>
  The calls with an effect outside the Downloader, in the order made. The trace is
  a record of what happened; no operation reads it.
\<close>

datatype event =
    AddLock string
  | RemoveLock string
  | InsertFile string string bool
  | UpdateFile string string
  | InsertTemp string
  | SessionDownload download_args
  | RemoveFile string
  | RenameFile string string

text \<open>
  The lock registry, the files of the collection folder, the ledger (source path to
  stored file name and completion flag), the temp markers, the attempt counters of
  the Downloader (\<^verbatim>\<open>self.current_attempt\<close>), the trace, and the URLs the retry
  wrapper invoked its action with.
\<close>

record world =
  locked_files :: "string set"
  disk :: files
  ledger :: "(string \<times> string \<times> bool) list"
  temp_markers :: "string list"
  current_attempt :: "string \<rightharpoonup> int"
  trace :: "event list"
  invoked :: "url list"

definition file_exists :: "string \<Rightarrow> world \<Rightarrow> bool" where
  "file_exists name w = (map_of (disk w) name \<noteq> None)"

definition st_size :: "string \<Rightarrow> world \<Rightarrow> nat" where
  "st_size name w = (case map_of (disk w) name of Some n \<Rightarrow> n | None \<Rightarrow> 0)"

subsection \<open>The lock registry\<close>

text \<open>
  Modelled from the spec: the class \<^verbatim>\<open>FileLock\<close> of
  \<^verbatim>\<open>base_functions/data_classes.py\<close> is not among the sources. Section 4.2: a shared
  table from filename to held or free, with \<open>is_locked(name)\<close>.
\<close>

definition check_lock :: "string \<Rightarrow> world \<Rightarrow> bool" where
  "check_lock filename w = (filename \<in> locked_files w)"

text \<open>
  Modelled from the spec: \<^verbatim>\<open>FileLock.add_lock\<close> is not among the sources. Section
  4.2: \<open>acquire(name)\<close> marks the name held.
\<close>

definition add_lock :: "string \<Rightarrow> world \<Rightarrow> world" where
  "add_lock filename w =
     w\<lparr>locked_files := insert filename (locked_files w), trace := trace w @ [AddLock filename]\<rparr>"

text \<open>
  Modelled from the spec: \<^verbatim>\<open>FileLock.remove_lock\<close> is not among the sources. Section
  4.2: \<open>release(name)\<close> marks the name free and is a no-op if it is free already.
\<close>

definition remove_lock :: "string \<Rightarrow> world \<Rightarrow> world" where
  "remove_lock filename w =
     w\<lparr>locked_files := locked_files w - {filename}, trace := trace w @ [RemoveLock filename]\<rparr>"

subsection \<open>The ledger\<close>

text \<open>
  Modelled from the spec: \<^verbatim>\<open>SQLHelper.sql_check_existing\<close> is not among the sources.
  Section 6: \<open>path_exists_completed(path)\<close>.
\<close>

definition sql_check_existing :: "string \<Rightarrow> world \<Rightarrow> bool" where
  "sql_check_existing db_path w =
     (case map_of (ledger w) db_path of None \<Rightarrow> False | Some (name, completed) \<Rightarrow> completed)"

text \<open>
  Modelled from the spec: \<^verbatim>\<open>SQLHelper.sql_insert_file\<close> is not among the sources.
  Section 4.5: it records \<open>(path, filename, completed)\<close>; the ledger is keyed by the
  path (section 3).
\<close>

definition sql_insert_file :: "string \<Rightarrow> string \<Rightarrow> bool \<Rightarrow> world \<Rightarrow> world" where
  "sql_insert_file db_path filename completed w =
     w\<lparr>ledger := AList.update db_path (filename, completed) (ledger w),
       trace := trace w @ [InsertFile db_path filename completed]\<rparr>"

text \<open>
  Modelled from the spec: \<^verbatim>\<open>SQLHelper.sql_update_file\<close> is not among the sources.
  Sections 3 and 6: \<open>mark_completed(path, name)\<close> mutates the record of the path to
  completed.
\<close>

definition sql_update_file :: "string \<Rightarrow> string \<Rightarrow> world \<Rightarrow> world" where
  "sql_update_file db_path filename w =
     w\<lparr>ledger := (if map_of (ledger w) db_path = None then ledger w
                   else AList.update db_path (filename, True) (ledger w)),
       trace := trace w @ [UpdateFile db_path filename]\<rparr>"

text \<open>
  Modelled from the spec: \<^verbatim>\<open>SQLHelper.get_download_filename\<close> is not among the
  sources. Section 6: \<open>lookup_assigned_name(path)\<close>, a name or nothing.
\<close>

definition get_download_filename :: "string \<Rightarrow> world \<Rightarrow> string option" where
  "get_download_filename db_path w = map_option fst (map_of (ledger w) db_path)"

text \<open>
  Modelled from the spec: \<^verbatim>\<open>SQLHelper.check_filename\<close> is not among the sources.
  Section 6: \<open>name_in_use(name)\<close>, whether the ledger's name index holds the name.
\<close>

definition check_filename :: "string \<Rightarrow> world \<Rightarrow> bool" where
  "check_filename filename w = (filename \<in> set (map (\<lambda>r. fst (snd r)) (ledger w)))"

text \<open>
  Modelled from the spec: \<^verbatim>\<open>SQLHelper.sql_insert_temp\<close> is not among the sources.
  Section 6: \<open>insert_temp_marker(temp_path)\<close>.
\<close>

definition sql_insert_temp :: "string \<Rightarrow> world \<Rightarrow> world" where
  "sql_insert_temp temp_file w =
     w\<lparr>temp_markers := temp_markers w @ [temp_file], trace := trace w @ [InsertTemp temp_file]\<rparr>"

section \<open>retry (lines 21-46)\<close>

text \<open>Lines 35-44: the rewrite of the URL before the next attempt.\<close>

definition mirror_substitute :: "formats \<Rightarrow> url \<Rightarrow> url" where
  "mirror_substitute F u =
     (if is_substr ''cyberdrop'' (host u)
      then (let ext = ''.'' @ after_last_dot (url_name u)
            in if ext \<in> Images F
               then with_host u ''img-01.cyberdrop.to''
               else parse_url (replace_str ''fs-05.'' ''fs-04.'' (str_url u)))
      else u)"

text \<open>
  The wrapper around an action \<open>f\<close> whose first argument is the URL. It loops until
  \<open>f\<close> returns, raises something other than \<open>FailureException\<close>, or the attempt
  limit is reached; a loop without end is the value \<open>None\<close>. Reading a counter that
  is not in the dictionary raises \<^verbatim>\<open>KeyError\<close>. The sleep of two seconds is not
  modelled.
\<close>

partial_function (option) retry ::
  "downloader \<Rightarrow> formats \<Rightarrow> (url \<Rightarrow> world \<Rightarrow> (outcome \<times> world) option)
     \<Rightarrow> url \<Rightarrow> world \<Rightarrow> (outcome \<times> world) option" where
  "retry D F f u w =
     (case f u (w\<lparr>invoked := invoked w @ [u]\<rparr>) of
        None \<Rightarrow> None
      | Some (r, w1) \<Rightarrow>
          (case r of
             Returned \<Rightarrow> Some (Returned, w1)
           | Raised e \<Rightarrow>
               if \<not> is_failure e then Some (Raised e, w1)
               else (case current_attempt w1 (str_url u) of
                       None \<Rightarrow> Some (Raised KeyError, w1)
                     | Some n \<Rightarrow>
                         if \<not> disable_attempt_limit D \<and> n \<ge> attempts D - 1
                         then Some (Raised e, w1)
                         else retry D F f (mirror_substitute F u)
                                (w1\<lparr>current_attempt := (current_attempt w1)(str_url u \<mapsto> n + 1)\<rparr>))))"


section \<open>download\_file (lines 76-181) and rename\_file (lines 183-194)\<close>

text \<open>Lines 79-80: the attempt counter of a URL starts at 0.\<close>

definition init_attempt :: "url \<Rightarrow> world \<Rightarrow> world" where
  "init_attempt u w =
     (if current_attempt w (str_url u) = None
      then w\<lparr>current_attempt := (current_attempt w)(str_url u \<mapsto> 0)\<rparr> else w)"

text \<open>
  Lines 83-90: the path the ledger is keyed by. For an anonfiles host the path is
  split at \<open>/\<close>, the first part and then the part at index 1 are popped;
  \<^verbatim>\<open>pop(1)\<close> raises \<^verbatim>\<open>IndexError\<close> on fewer than two parts.
\<close>

definition db_path_of :: "url \<Rightarrow> exn + string" where
  "db_path_of u =
     (if is_substr ''anonfiles'' (host u)
      then (let parts = tl (split_char CHR ''/'' (path u))
            in if length parts < 2 then Inl IndexError
               else Inr (''/'' @ join_char CHR ''/'' (hd parts # drop 2 parts)))
      else Inr (path u))"

text \<open>
  Lines 103-104: poll the registry until the name is free. Run alone, a task that
  finds the name held polls for ever: the value \<open>None\<close>.
\<close>

partial_function (option) lock_wait :: "string \<Rightarrow> world \<Rightarrow> world option" where
  "lock_wait filename w = (if check_lock filename w then lock_wait filename w else Some w)"

text \<open>
  Lines 122-128: try \<open>stem (n)ext\<close> for \<open>n = iterations, iterations + 1, ...\<close>
  until the name is neither a file of the folder nor a name of the ledger.
\<close>

partial_function (option) name_loop :: "world \<Rightarrow> string \<Rightarrow> string \<Rightarrow> nat \<Rightarrow> string option" where
  "name_loop w stem ext iterations =
     (let filename = stem @ '' ('' @ str_nat iterations @ '')'' @ ext
      in if \<not> file_exists filename w \<and> \<not> check_filename filename w
         then Some filename
         else name_loop w stem ext (iterations + 1))"

text \<open>
  Lines 118-130: the name to download under when the candidate is occupied. A name
  the ledger already holds for the path is reused; \<^verbatim>\<open>not download_name\<close> is true
  for no name and for the empty one.
\<close>

definition resolve_name :: "string \<Rightarrow> string \<Rightarrow> world \<Rightarrow> string option" where
  "resolve_name db_path filename w =
     (let ext = ''.'' @ after_last_dot filename;
          download_name = get_download_filename db_path w
      in if download_name = None \<or> download_name = Some []
         then name_loop w (path_stem filename) ext 1
         else download_name)"

text \<open>How a part of the body ends: it returns, raises, or goes on with a file name.\<close>

datatype flow = Return | Raise exn | Next string

text \<open>
  Lines 111-116: an existing complete file of the size the server reports is recorded
  as completed, and the call returns.
\<close>

definition size_check :: "session \<Rightarrow> url \<Rightarrow> string \<Rightarrow> string \<Rightarrow> world \<Rightarrow> flow \<times> world" where
  "size_check S u db_path complete_file w =
     (if file_exists complete_file w
      then (case get_filesize S u of
              Inl e \<Rightarrow> (Raise e, w)
            | Inr total_size \<Rightarrow>
                if int (st_size complete_file w) = total_size
                then (Return, sql_insert_file db_path complete_file True w)
                else (Next complete_file, w))
      else (Next complete_file, w))"

text \<open>
  Lines 132-155: the pending record, the mark-downloaded mode, the resume point and
  the transfer.
\<close>

definition transfer ::
  "downloader \<Rightarrow> session \<Rightarrow> url \<Rightarrow> string \<Rightarrow> string \<Rightarrow> string \<Rightarrow> world \<Rightarrow> flow \<times> world" where
  "transfer D S u db_path original_filename filename w0 =
     (let w1 = sql_insert_file db_path filename False w0
      in if mark_downloaded D then (Return, sql_update_file db_path filename w1)
         else (let temp_file = part_name filename;
                   w2 = sql_insert_temp temp_file w1;
                   resume_point = (if file_exists temp_file w2 then st_size temp_file w2 else 0);
                   range_num = (if file_exists temp_file w2
                                then Some (''bytes='' @ str_nat resume_point @ ''-'') else None);
                   args = \<lparr>dl_url = u, dl_range = range_num, dl_original = original_filename,
                           dl_final = filename, dl_temp = temp_file, dl_resume = resume_point,
                           dl_locks = locked_files w2\<rparr>;
                   answer = session_download_file S args (disk w2);
                   w3 = w2\<lparr>disk := snd answer, trace := trace w2 @ [SessionDownload args]\<rparr>
               in case fst answer of
                    Some e \<Rightarrow> (Raise e, w3)
                  | None \<Rightarrow> (Next filename, w3)))"

text \<open>Lines 107-155: the body between the acquisition of the lock and the rename.\<close>

definition locked_section ::
  "downloader \<Rightarrow> session \<Rightarrow> url \<Rightarrow> string \<Rightarrow> string \<Rightarrow> world \<Rightarrow> (flow \<times> world) option" where
  "locked_section D S u db_path filename w =
     (if file_exists filename w \<or> file_exists (part_name filename) w
      then (case size_check S u db_path filename w of
              (Next complete_file, w1) \<Rightarrow>
                (case resolve_name db_path filename w1 of
                   None \<Rightarrow> None
                 | Some final \<Rightarrow> Some (transfer D S u db_path filename final w1))
            | (Return, w1) \<Rightarrow> Some (Return, w1)
            | (Raise e, w1) \<Rightarrow> Some (Raise e, w1))
      else Some (transfer D S u db_path filename filename w))"

text \<open>
  \<^verbatim>\<open>rename_file\<close>: removing or renaming a temporary file that does not exist raises
  \<^verbatim>\<open>FileNotFoundError\<close>.
\<close>

definition rename_file :: "string \<Rightarrow> string \<Rightarrow> world \<Rightarrow> outcome \<times> world" where
  "rename_file filename db_path w =
     (let complete_file = filename; temp_file = part_name filename
      in if file_exists complete_file w
         then (if \<not> file_exists temp_file w then (Raised FileNotFoundError, w)
               else (Returned, sql_update_file db_path filename
                       (w\<lparr>disk := AList.delete temp_file (disk w),
                          trace := trace w @ [RemoveFile temp_file]\<rparr>)))
         else (if \<not> file_exists temp_file w then (Raised FileNotFoundError, w)
               else (Returned, sql_update_file db_path filename
                       (w\<lparr>disk := AList.update complete_file (st_size temp_file w)
                                    (AList.delete temp_file (disk w)),
                          trace := trace w @ [RenameFile temp_file complete_file]\<rparr>))))"

text \<open>The exception types the handler at lines 160-162 names.\<close>

fun caught :: "exn \<Rightarrow> bool" where
  "caught (FailureException c) = True"
| "caught (ClientError c) = True"
| "caught e = False"

fun exn_code :: "exn \<Rightarrow> int option" where
  "exn_code (FailureException c) = Some c"
| "exn_code (ClientError c) = c"
| "exn_code e = None"

text \<open>
  Lines 163-181: release the lock; a 4xx code other than 429 ends the link for good
  (the call returns) unless the host is a \<open>media-files.bunkr\<close> one; everything else
  is raised again as \<^verbatim>\<open>FailureException(code=1)\<close>.
\<close>

definition handle_failure :: "url \<Rightarrow> string \<Rightarrow> exn \<Rightarrow> world \<Rightarrow> outcome \<times> world" where
  "handle_failure u original_filename e w0 =
     (let w = remove_lock original_filename w0
      in case exn_code e of
           None \<Rightarrow> (Raised (FailureException 1), w)
         | Some code \<Rightarrow>
             if 400 \<le> code \<and> code < 500 \<and> code \<noteq> 429
             then (if is_substr ''media-files.bunkr'' (host u)
                   then (Raised (FailureException 1), w)
                   else (Returned, w))
             else (Raised (FailureException 1), w))"

text \<open>
  The body of \<^verbatim>\<open>download_file\<close>, one attempt. The semaphore admits a task
  when the worker cap is positive; with a cap of 0 the task waits for ever. An
  exception the handler does not name leaves the call as it is.
\<close>

definition download_file ::
  "downloader \<Rightarrow> session \<Rightarrow> string \<Rightarrow> url \<Rightarrow> world \<Rightarrow> (outcome \<times> world) option" where
  "download_file D S filename u w0 =
     (let w = init_attempt u w0
      in case db_path_of u of
           Inl e \<Rightarrow> Some (Raised e, w)
         | Inr db_path \<Rightarrow>
             if sql_check_existing db_path w then Some (Returned, w)
             else if max_workers D < 1 then None
             else (case lock_wait filename w of
                     None \<Rightarrow> None
                   | Some w1 \<Rightarrow>
                       (let original_filename = filename;
                            w2 = add_lock filename w1
                        in case locked_section D S u db_path filename w2 of
                             None \<Rightarrow> None
                           | Some (Return, w3) \<Rightarrow> Some (Returned, w3)
                           | Some (Raise e, w3) \<Rightarrow>
                               if caught e then Some (handle_failure u original_filename e w3)
                               else Some (Raised e, w3)
                           | Some (Next final, w3) \<Rightarrow>
                               (case rename_file final db_path w3 of
                                  (Returned, w4) \<Rightarrow>
                                    Some (Returned, remove_lock original_filename w4)
                                | (Raised e, w4) \<Rightarrow>
                                    if caught e
                                    then Some (handle_failure u original_filename e w4)
                                    else Some (Raised e, w4)))))"


section \<open>Notions of the specification\<close>

text \<open>The known-strict hosts of section 4.6: the three substrings line 297 tests.\<close>

definition strict_host :: "string \<Rightarrow> bool" where
  "strict_host domain =
     (is_substr ''bunkr'' domain \<or> is_substr ''pixeldrain'' domain \<or> is_substr ''anonfiles'' domain)"

text \<open>
  The result the specification describes for a name over the length limit (section
  4.3, step 2): some truncation of the stem, then the dot and the extension.
\<close>

definition truncated_stem_with_ext :: "string \<Rightarrow> string \<Rightarrow> string \<Rightarrow> bool" where
  "truncated_stem_with_ext stem ext result =
     (\<exists>p \<in> set (prefixes stem). result = p @ ''.'' @ ext)"

text \<open>
  A URL as the model reads it back from its text: no \<open>:\<close> or \<open>/\<close> in the scheme,
  no \<open>/\<close> in the host, and a path that is empty or starts with \<open>/\<close>.
\<close>

definition well_formed_url :: "url \<Rightarrow> bool" where
  "well_formed_url u =
     (CHR '':'' \<notin> set (scheme u) \<and> CHR ''/'' \<notin> set (scheme u) \<and> CHR ''/'' \<notin> set (host u)
      \<and> (path u = [] \<or> hd (path u) = CHR ''/''))"

text \<open>
  An action that signals a recoverable failure on every invocation (section 4.1). As
  \<^verbatim>\<open>download_file\<close> does at lines 79-80, it starts the counter of its URL at 0 when
  the URL has none, and it leaves the other counters and the wrapper's record of
  invocations alone.
\<close>

definition always_fails :: "(url \<Rightarrow> world \<Rightarrow> (outcome \<times> world) option) \<Rightarrow> bool" where
  "always_fails f =
     (\<forall>u w. \<exists>c w'. f u w = Some (Raised (FailureException c), w')
        \<and> invoked w' = invoked w
        \<and> current_attempt w' = current_attempt (init_attempt u w))"

text \<open>The name the loop of lines 122-128 tries in round \<open>n\<close>: \<open>stem (n).ext\<close>.\<close>

definition numbered_name :: "string \<Rightarrow> nat \<Rightarrow> string" where
  "numbered_name filename n =
     path_stem filename @ '' ('' @ str_nat n @ '')'' @ ''.'' @ after_last_dot filename"

text \<open>A name is taken when it is a file of the folder or a name of the ledger.\<close>

definition name_taken :: "string \<Rightarrow> world \<Rightarrow> bool" where
  "name_taken name w = (file_exists name w \<or> check_filename name w)"

text \<open>The value of a decimal numeral, to tell the numbered names apart.\<close>

definition nat_of_str :: "string \<Rightarrow> nat" where
  "nat_of_str s = foldl (\<lambda>a c. 10 * a + (of_char c - 48)) 0 s"



text \<open>
  An event of a call for the file name \<open>original\<close> keeps to that name: a lock is
  added or removed under that name only, and a transfer is handed that name as the
  original one, with the registry holding exactly \<open>held\<close>.
\<close>

fun lock_event_ok :: "string \<Rightarrow> string set \<Rightarrow> event \<Rightarrow> bool" where
  "lock_event_ok original held (AddLock f) = (f = original)"
| "lock_event_ok original held (RemoveLock f) = (f = original)"
| "lock_event_ok original held (SessionDownload a) =
     (dl_original a = original \<and> dl_locks a = held)"
| "lock_event_ok original held e = True"



text \<open>The ledger after an event, and the ledgers over a trace, the first one included.\<close>

fun ledger_apply :: "event \<Rightarrow> (string \<times> string \<times> bool) list \<Rightarrow> (string \<times> string \<times> bool) list" where
  "ledger_apply (InsertFile p name completed) l = AList.update p (name, completed) l"
| "ledger_apply (UpdateFile p name) l =
     (if map_of l p = None then l else AList.update p (name, True) l)"
| "ledger_apply e l = l"

fun ledger_states ::
  "(string \<times> string \<times> bool) list \<Rightarrow> event list \<Rightarrow> (string \<times> string \<times> bool) list list" where
  "ledger_states l [] = [l]"
| "ledger_states l (e # es) = l # ledger_states (ledger_apply e l) es"





section \<open>The lock protocol under interleaving (lines 103-105, 116, 136, 158, 164)\<close>









section \<open>Example inputs\<close>

definition example_formats :: formats where
  "example_formats =
     \<lparr>Images = {''.jpg'', ''.png''}, Videos = {''.mp4''}, Audio = {''.mp3''}, Other = {''.zip''}\<rparr>"

definition example_downloader :: downloader where
  "example_downloader = \<lparr>album_obj = [], title = ''album'', max_workers = 2, attempts = 3,
     disable_attempt_limit = False, mark_downloaded = False\<rparr>"

definition empty_world :: world where
  "empty_world = \<lparr>locked_files = {}, disk = [], ledger = [], temp_markers = [],
     current_attempt = Map.empty, trace = [], invoked = []\<rparr>"

text \<open>A session whose every call raises an exception no handler names.\<close>

definition no_session :: session where
  "no_session = \<lparr>get_filesize = (\<lambda>u. Inl OtherException),
     session_get_filename = (\<lambda>u. Inl OtherException),
     get_content_type = (\<lambda>u. Inl OtherException),
     session_download_file = (\<lambda>a d. (Some OtherException, d))\<rparr>"

text \<open>The simplest action that always fails: lines 79-80, then \<open>FailureException\<close>.\<close>

definition failing_action :: "url \<Rightarrow> world \<Rightarrow> (outcome \<times> world) option" where
  "failing_action u w = Some (Raised (FailureException 1), init_attempt u w)"

definition example_url :: url where
  "example_url = \<lparr>scheme = ''https'', host = ''example.com'', path = ''/a.jpg''\<rparr>"

text \<open>A folder that holds \<open>a.jpg\<close> (10 bytes), and one that also holds \<open>a (1).jpg\<close>.\<close>

definition occupied_world :: world where
  "occupied_world = empty_world\<lparr>disk := [(''a.jpg'', 10)]\<rparr>"

definition occupied_twice_world :: world where
  "occupied_twice_world = empty_world\<lparr>disk := [(''a.jpg'', 10), (''a (1).jpg'', 5)]\<rparr>"

text \<open>
  A session that reports the size \<open>n\<close> and whose transfer writes the temporary file
  with that size and returns.
\<close>

definition sized_session :: "nat \<Rightarrow> session" where
  "sized_session n = \<lparr>get_filesize = (\<lambda>u. Inr (int n)),
     session_get_filename = (\<lambda>u. Inl OtherException),
     get_content_type = (\<lambda>u. Inl OtherException),
     session_download_file = (\<lambda>a d. (None, AList.update (dl_temp a) n d))\<rparr>"


section \<open>Basic facts\<close>

subsection \<open>Strings\<close>

lemma split_char_nonempty: "split_char c s \<noteq> []"
  by (induction s) auto

lemma split_char_no_sep: "c \<notin> set s \<Longrightarrow> split_char c s = [s]"
  by (induction s) auto

lemma split_char_sep_tl: "c \<in> set s \<Longrightarrow> tl (split_char c s) \<noteq> []"
  by (induction s) (auto simp: split_char_nonempty)

lemma last_split_char_append:
  "last (split_char c (a @ c # b)) = last (split_char c b)"
proof (induction a)
  case Nil
  show ?case by (simp add: split_char_nonempty)
next
  case (Cons x a)
  have "tl (split_char c (a @ c # b)) \<noteq> []" by (rule split_char_sep_tl) simp
  then show ?case using Cons by (auto simp: split_char_nonempty last_tl)
qed

lemma after_last_dot_append:
  "CHR ''.'' \<notin> set ext \<Longrightarrow> after_last_dot (stem @ CHR ''.'' # ext) = ext"
  by (simp add: after_last_dot_def last_split_char_append split_char_no_sep)

text \<open>
  A separator that does not occur in \<open>old\<close> splits a replacement in two, and the
  replacement adds no characters but those of \<open>new\<close>.
\<close>

lemma prefix_sep:
  "c \<notin> set p \<Longrightarrow> prefix p (a @ c # b) \<longleftrightarrow> prefix p a"
  by (auto simp: prefix_append prefix_Cons)

lemma replace_str_sep:
  "c \<notin> set old \<Longrightarrow>
   replace_str old new (a @ c # b) = replace_str old new a @ c # replace_str old new b"
proof (induction old new a rule: replace_str.induct)
  case (1 old new)
  then show ?case by (auto simp: prefix_Cons)
next
  case (2 old new x xs)
  show ?case
  proof (cases "old \<noteq> [] \<and> prefix old (x # xs)")
    case True
    then have len: "length old \<le> length (x # xs)" by (auto dest: prefix_length_le)
    have p: "prefix old ((x # xs) @ c # b)" using True prefix_prefix[of old "x # xs" "c # b"] by simp
    have d: "drop (length old) ((x # xs) @ c # b) = drop (length old) (x # xs) @ c # b"
      using len drop_append[of "length old" "x # xs" "c # b"] by simp
    have "replace_str old new ((x # xs) @ c # b)
        = new @ replace_str old new (drop (length old) (x # xs) @ c # b)"
      using True p d by simp
    also have "\<dots> = new @ replace_str old new (drop (length old) (x # xs)) @ c # replace_str old new b"
      using 2(1)[OF True 2(3)] by simp
    finally show ?thesis using True by simp
  next
    case False
    have np: "\<not> (old \<noteq> [] \<and> prefix old (x # xs @ c # b))"
      using False prefix_sep[OF 2(3), of "x # xs" b] by auto
    have e1: "replace_str old new (x # xs @ c # b) = x # replace_str old new (xs @ c # b)"
      using np by (simp only: replace_str.simps if_not_P if_False)
    have e2: "replace_str old new (x # xs) = x # replace_str old new xs"
      using False by (simp only: replace_str.simps if_not_P if_False)
    show ?thesis using e1 e2 2(2)[OF False 2(3)] by simp
  qed
qed

lemma set_replace_str: "set (replace_str old new s) \<subseteq> set s \<union> set new"
proof (induction old new s rule: replace_str.induct)
  case (1 old new)
  show ?case by simp
next
  case (2 old new x xs)
  show ?case
  proof (cases "old \<noteq> [] \<and> prefix old (x # xs)")
    case True
    have "set (drop (length old) (x # xs)) \<subseteq> set (x # xs)" by (rule set_drop_subset)
    then show ?thesis using 2(1)[OF True] True by auto
  next
    case False
    then show ?thesis using 2(2)[OF False] by auto
  qed
qed

lemma before_first_append:
  "sep \<noteq> [] \<Longrightarrow> hd sep \<notin> set a \<Longrightarrow> before_first sep (a @ sep @ b) = a"
proof (induction a)
  case Nil
  then show ?case by (cases sep) auto
next
  case (Cons x a)
  then have "\<not> prefix sep (x # a @ sep @ b)" by (cases sep) auto
  then show ?case using Cons by simp
qed

lemma is_substr_append: "sep \<noteq> [] \<Longrightarrow> is_substr sep (a @ sep @ b)"
proof (induction a)
  case Nil
  then show ?case by (cases sep) auto
next
  case (Cons x a)
  then show ?case by simp
qed

lemma parse_url_str:
  assumes "CHR '':'' \<notin> set sch" and "CHR ''/'' \<notin> set h" and "p = [] \<or> hd p = CHR ''/''"
  shows "parse_url (sch @ ''://'' @ h @ p) = \<lparr>scheme = sch, host = h, path = p\<rparr>"
proof -
  have s: "is_substr ''://'' (sch @ ''://'' @ h @ p)" by (rule is_substr_append) simp
  have b: "before_first ''://'' (sch @ ''://'' @ h @ p) = sch"
    by (rule before_first_append) (use assms in auto)
  have t: "takeWhile (\<lambda>c. c \<noteq> CHR ''/'') (h @ p) = h"
    using assms(2,3) by (cases p) (auto simp: takeWhile_tail)
  have d: "dropWhile (\<lambda>c. c \<noteq> CHR ''/'') (h @ p) = p"
    using assms(2,3) by (cases p) (auto simp: dropWhile_append3)
  show ?thesis unfolding parse_url_def using s b t d by (simp add: Let_def)
qed

text \<open>
  Replacing \<open>fs-05.\<close> in the text of a well-formed URL and reading the text back
  replaces it in scheme, host and path.
\<close>

lemma replace_url_text:
  assumes "well_formed_url u"
  shows "parse_url (replace_str ''fs-05.'' ''fs-04.'' (str_url u))
       = \<lparr>scheme = replace_str ''fs-05.'' ''fs-04.'' (scheme u),
          host = replace_str ''fs-05.'' ''fs-04.'' (host u),
          path = replace_str ''fs-05.'' ''fs-04.'' (path u)\<rparr>"
proof -
  let ?R = "replace_str ''fs-05.'' ''fs-04.''"
  have c1: "CHR '':'' \<notin> set ''fs-05.''" and c2: "CHR ''/'' \<notin> set ''fs-05.''" by simp_all
  have hp: "?R (host u @ path u) = ?R (host u) @ ?R (path u) \<and> (?R (path u) = [] \<or> hd (?R (path u)) = CHR ''/'')"
  proof (cases "path u")
    case Nil
    then show ?thesis by simp
  next
    case (Cons x xs)
    then have x: "x = CHR ''/''" using assms by (simp add: well_formed_url_def)
    have "?R (host u @ CHR ''/'' # xs) = ?R (host u) @ CHR ''/'' # ?R xs"
      by (rule replace_str_sep[OF c2])
    moreover have "?R ([] @ CHR ''/'' # xs) = ?R [] @ CHR ''/'' # ?R xs"
      by (rule replace_str_sep[OF c2])
    ultimately show ?thesis using Cons x by simp
  qed
  have "?R (str_url u) = ?R (scheme u @ CHR '':'' # (CHR ''/'' # CHR ''/'' # host u @ path u))"
    by (simp add: str_url_def)
  also have "\<dots> = ?R (scheme u) @ CHR '':'' # ?R ([] @ CHR ''/'' # (CHR ''/'' # host u @ path u))"
    using replace_str_sep[OF c1, of "''fs-04.''" "scheme u"] by simp
  also have "?R ([] @ CHR ''/'' # (CHR ''/'' # host u @ path u)) = CHR ''/'' # ?R ([] @ CHR ''/'' # host u @ path u)"
    using replace_str_sep[OF c2, of "''fs-04.''" "[]"] by simp
  also have "?R ([] @ CHR ''/'' # host u @ path u) = CHR ''/'' # ?R (host u @ path u)"
    using replace_str_sep[OF c2, of "''fs-04.''" "[]"] by simp
  finally have eq: "?R (str_url u) = ?R (scheme u) @ ''://'' @ ?R (host u) @ ?R (path u)"
    using hp by simp
  have a1: "CHR '':'' \<notin> set (?R (scheme u))"
    using set_replace_str[of "''fs-05.''" "''fs-04.''" "scheme u"] assms
    by (auto simp: well_formed_url_def)
  have a2: "CHR ''/'' \<notin> set (?R (host u))"
    using set_replace_str[of "''fs-05.''" "''fs-04.''" "host u"] assms
    by (auto simp: well_formed_url_def)
  show ?thesis unfolding eq using parse_url_str[OF a1 a2] hp by blast
qed

text \<open>
  \<open>str_nat\<close> is injective, so the numbered names of a file name are pairwise
  different; each is longer than the name it was made from.
\<close>

lemma digit_value: "n < 10 \<Longrightarrow> (of_char (''0123456789'' ! n) :: nat) = 48 + n"
proof -
  have "\<forall>k \<in> set [0..<10]. (of_char (''0123456789'' ! k) :: nat) = 48 + k"
    by code_simp
  moreover assume "n < 10"
  ultimately show ?thesis by simp
qed

lemma nat_of_str_snoc: "nat_of_str (xs @ [c]) = 10 * nat_of_str xs + (of_char c - 48)"
  by (simp add: nat_of_str_def)

lemma nat_of_str_str_nat: "nat_of_str (str_nat n) = n"
proof (induction n rule: str_nat.induct)
  case (1 n)
  show ?case
  proof (cases "n < 10")
    case True
    then show ?thesis
      by (subst str_nat.simps) (simp add: nat_of_str_def digit_value)
  next
    case False
    have "nat_of_str (str_nat n) = 10 * nat_of_str (str_nat (n div 10)) + (of_char (''0123456789'' ! (n mod 10)) - 48)"
      using False by (subst str_nat.simps) (simp add: nat_of_str_snoc)
    also have "\<dots> = 10 * (n div 10) + n mod 10"
      using 1[OF False] by (simp add: digit_value)
    finally show ?thesis by simp
  qed
qed

lemma str_nat_inj: "str_nat n = str_nat m \<Longrightarrow> n = m"
  by (metis nat_of_str_str_nat)

lemma numbered_name_inj: "numbered_name f n = numbered_name f m \<Longrightarrow> n = m"
  by (simp add: numbered_name_def str_nat_inj)

lemma numbered_name_differs: "numbered_name filename n \<noteq> filename"
proof -
  have "length filename \<le> length (path_stem filename) + length (after_last_dot filename) + 1"
    by (simp add: path_stem_def before_last_dot_def)
  then have "length filename < length (numbered_name filename n)"
    by (simp add: numbered_name_def)
  then show ?thesis by auto
qed

subsection \<open>The two loops of download\_file\<close>

text \<open>
  Run alone, the poll of lines 103-104 returns exactly when the name is free.
\<close>

lemma lock_wait_free: "\<not> check_lock filename w \<Longrightarrow> lock_wait filename w = Some w"
  by (subst lock_wait.simps) simp

lemma lock_wait_Some:
  "lock_wait filename w = Some w' \<Longrightarrow> \<not> check_lock filename w \<and> w' = w"
  by (erule lock_wait.raw_induct[rotated]) (auto split: if_splits)


text \<open>
  The folder and the ledger are finite, so some numbered name is free, and the loop
  of lines 122-128 returns the first one.
\<close>

lemma name_taken_set:
  "name_taken name w \<longleftrightarrow> name \<in> fst ` set (disk w) \<union> (\<lambda>r. fst (snd r)) ` set (ledger w)"
  by (auto simp: name_taken_def file_exists_def check_filename_def map_of_eq_None_iff)

lemma free_name_exists: "\<exists>n\<ge>1. \<not> name_taken (numbered_name f n) w"
proof (rule ccontr)
  let ?T = "fst ` set (disk w) \<union> (\<lambda>r. fst (snd r)) ` set (ledger w)"
  assume "\<not> (\<exists>n\<ge>1. \<not> name_taken (numbered_name f n) w)"
  then have "numbered_name f ` {1..} \<subseteq> ?T" by (auto simp: name_taken_set)
  moreover have "finite ?T" by simp
  ultimately have "finite (numbered_name f ` {1..})" by (rule finite_subset)
  moreover have "inj_on (numbered_name f) {1..}" by (auto intro: inj_onI dest: numbered_name_inj)
  ultimately have "finite {1::nat..}" by (rule finite_imageD)
  then show False by (simp add: infinite_Ici)
qed

lemma name_loop_step:
  "name_loop w stem ext n =
     (if \<not> name_taken (stem @ '' ('' @ str_nat n @ '')'' @ ext) w
      then Some (stem @ '' ('' @ str_nat n @ '')'' @ ext)
      else name_loop w stem ext (Suc n))"
  by (subst name_loop.simps) (simp add: name_taken_def Let_def)

lemma name_loop_finds:
  assumes "\<not> name_taken (numbered_name f n) w"
  shows "k \<le> n \<Longrightarrow> \<forall>m. k \<le> m \<and> m < n \<longrightarrow> name_taken (numbered_name f m) w
     \<Longrightarrow> name_loop w (path_stem f) (''.'' @ after_last_dot f) k = Some (numbered_name f n)"
proof (induction "n - k" arbitrary: k)
  case 0
  then have "k = n" by simp
  then show ?case using assms by (subst name_loop_step) (simp add: numbered_name_def)
next
  case (Suc d)
  then have kn: "k < n" by simp
  with Suc(4) have t: "name_taken (numbered_name f k) w" by simp
  have "name_loop w (path_stem f) (''.'' @ after_last_dot f) k
      = name_loop w (path_stem f) (''.'' @ after_last_dot f) (Suc k)"
    using t by (subst name_loop_step) (simp add: numbered_name_def)
  also have "\<dots> = Some (numbered_name f n)"
    by (rule Suc(1)) (use Suc(2) Suc(4) kn in auto)
  finally show ?case .
qed

lemma resolve_name_first_free:
  assumes "get_download_filename db_path w = None"
  shows "\<exists>n\<ge>1. resolve_name db_path filename w = Some (numbered_name filename n)
     \<and> \<not> name_taken (numbered_name filename n) w
     \<and> (\<forall>m. 1 \<le> m \<and> m < n \<longrightarrow> name_taken (numbered_name filename m) w)"
proof -
  define n where "n = (LEAST n. 1 \<le> n \<and> \<not> name_taken (numbered_name filename n) w)"
  from free_name_exists[of filename w] obtain n0 where
    "1 \<le> n0 \<and> \<not> name_taken (numbered_name filename n0) w" by blast
  then have n: "1 \<le> n \<and> \<not> name_taken (numbered_name filename n) w"
    unfolding n_def by (rule LeastI)
  have least: "\<forall>m. 1 \<le> m \<and> m < n \<longrightarrow> name_taken (numbered_name filename m) w"
    unfolding n_def by (auto dest: not_less_Least)
  have "name_loop w (path_stem filename) (''.'' @ after_last_dot filename) 1
      = Some (numbered_name filename n)"
    using n least by (intro name_loop_finds) auto
  then have "resolve_name db_path filename w = Some (numbered_name filename n)"
    using assms by (simp add: resolve_name_def Let_def)
  with n least show ?thesis by blast
qed

subsection \<open>The events of one call of download\_file\<close>

text \<open>
  What each part of the body adds to the trace and does to the ledger; the registry
  is touched by \<^verbatim>\<open>add_lock\<close> and \<^verbatim>\<open>remove_lock\<close> only.
\<close>

lemma transfer_shape:
  assumes "transfer D S u p orig final w = (fl, w')"
  shows "locked_files w' = locked_files w \<and>
     ((fl = Return \<and> trace w' = trace w @ [InsertFile p final False, UpdateFile p final]
        \<and> ledger w' = AList.update p (final, True) (AList.update p (final, False) (ledger w)))
      \<or> ((fl = Next final \<or> (\<exists>e. fl = Raise e))
         \<and> ledger w' = AList.update p (final, False) (ledger w)
         \<and> (\<exists>a. trace w' = trace w @ [InsertFile p final False, InsertTemp (part_name final),
                                         SessionDownload a]
                \<and> dl_original a = orig \<and> dl_final a = final \<and> dl_locks a = locked_files w)))"
  using assms unfolding transfer_def sql_insert_file_def sql_update_file_def sql_insert_temp_def
  by (auto simp: Let_def update_conv' split: if_splits option.splits)

lemma locked_section_shape:
  assumes "locked_section D S u p f w = Some (fl, w')"
  shows "locked_files w' = locked_files w \<and>
     ((fl = Return \<and> trace w' = trace w @ [InsertFile p f True]
        \<and> ledger w' = AList.update p (f, True) (ledger w)
        \<and> file_exists f w \<and> get_filesize S u = Inr (int (st_size f w)))
      \<or> ((\<exists>e. fl = Raise e) \<and> trace w' = trace w \<and> ledger w' = ledger w)
      \<or> (\<exists>final. fl = Return \<and> trace w' = trace w @ [InsertFile p final False, UpdateFile p final]
        \<and> ledger w' = AList.update p (final, True) (AList.update p (final, False) (ledger w)))
      \<or> (\<exists>final. (fl = Next final \<or> (\<exists>e. fl = Raise e))
         \<and> ledger w' = AList.update p (final, False) (ledger w)
         \<and> (\<exists>a. trace w' = trace w @ [InsertFile p final False, InsertTemp (part_name final),
                                         SessionDownload a]
                \<and> dl_original a = f \<and> dl_final a = final \<and> dl_locks a = locked_files w)))"
proof (cases "file_exists f w \<or> file_exists (part_name f) w")
  case False
  then have "transfer D S u p f f w = (fl, w')" using assms by (simp add: locked_section_def)
  from transfer_shape[OF this] show ?thesis by blast
next
  case True
  obtain fl1 w1 where sc: "size_check S u p f w = (fl1, w1)" by (cases "size_check S u p f w")
  show ?thesis
  proof (cases fl1)
    case Return
    then have "fl = Return" "w' = w1" using assms True sc by (simp_all add: locked_section_def)
    moreover have "file_exists f w \<and> get_filesize S u = Inr (int (st_size f w))
        \<and> w1 = sql_insert_file p f True w"
      using sc Return by (auto simp: size_check_def split: if_splits sum.splits)
    ultimately show ?thesis by (simp add: sql_insert_file_def)
  next
    case (Raise e)
    then have "fl = Raise e" "w' = w1" using assms True sc by (simp_all add: locked_section_def)
    moreover have "w1 = w" using sc Raise by (auto simp: size_check_def split: if_splits sum.splits)
    ultimately show ?thesis by simp
  next
    case (Next c)
    have w1: "w1 = w" using sc Next by (auto simp: size_check_def split: if_splits sum.splits)
    from assms True sc Next w1 obtain final where
      "transfer D S u p f final w = (fl, w')"
      by (auto simp: locked_section_def split: option.splits)
    from transfer_shape[OF this] show ?thesis by blast
  qed
qed

lemma rename_file_shape:
  assumes "rename_file final p w = (r, w')"
  shows "locked_files w' = locked_files w \<and>
     ((r = Raised FileNotFoundError \<and> w' = w)
      \<or> (r = Returned \<and> ledger w' = ledger_apply (UpdateFile p final) (ledger w)
          \<and> (\<exists>e. (e = RemoveFile (part_name final) \<or> e = RenameFile (part_name final) final)
                \<and> trace w' = trace w @ [e, UpdateFile p final])))"
  using assms unfolding rename_file_def sql_update_file_def
  by (auto simp: Let_def split: if_splits)

lemma handle_failure_shape:
  assumes "handle_failure u f e w = (r, w')"
  shows "trace w' = trace w @ [RemoveLock f] \<and> ledger w' = ledger w"
  using assms unfolding handle_failure_def remove_lock_def
  by (auto simp: Let_def split: if_splits option.splits)

lemma download_file_steps:
  assumes "download_file D S f u w = Some (r, w')"
  shows "((\<exists>e. db_path_of u = Inl e) \<or> (\<exists>p. db_path_of u = Inr p \<and> sql_check_existing p w))
       \<and> w' = init_attempt u w
     \<or> (\<exists>p fl w3. db_path_of u = Inr p \<and> \<not> sql_check_existing p w
          \<and> locked_section D S u p f (add_lock f (init_attempt u w)) = Some (fl, w3)
          \<and> ((fl = Return \<and> r = Returned \<and> w' = w3)
             \<or> (\<exists>e. fl = Raise e
                  \<and> (if caught e then handle_failure u f e w3 = (r, w') else r = Raised e \<and> w' = w3))
             \<or> (\<exists>final r4 w4. fl = Next final \<and> rename_file final p w3 = (r4, w4)
                  \<and> ((r4 = Returned \<and> r = Returned \<and> w' = remove_lock f w4)
                     \<or> (\<exists>e. r4 = Raised e
                          \<and> (if caught e then handle_failure u f e w4 = (r, w')
                              else r = Raised e \<and> w' = w4))))))"
proof (cases "db_path_of u")
  case (Inl e)
  then show ?thesis using assms by (simp add: download_file_def Let_def)
next
  case (Inr p)
  have c: "sql_check_existing p (init_attempt u w) = sql_check_existing p w"
    by (simp add: sql_check_existing_def init_attempt_def)
  show ?thesis
  proof (cases "sql_check_existing p w")
    case True
    then show ?thesis using assms Inr c by (simp add: download_file_def Let_def)
  next
    case False
    from assms Inr False c obtain w1 where lw: "lock_wait f (init_attempt u w) = Some w1"
      by (auto simp: download_file_def Let_def split: if_splits option.splits)
    from lock_wait_Some[OF lw] have w1: "w1 = init_attempt u w" by simp
    from assms Inr False c lw w1 have
      k: "(case locked_section D S u p f (add_lock f (init_attempt u w)) of
             None \<Rightarrow> None
           | Some (Return, w3) \<Rightarrow> Some (Returned, w3)
           | Some (Raise e, w3) \<Rightarrow>
               if caught e then Some (handle_failure u f e w3) else Some (Raised e, w3)
           | Some (Next final, w3) \<Rightarrow>
               (case rename_file final p w3 of
                  (Returned, w4) \<Rightarrow> Some (Returned, remove_lock f w4)
                | (Raised e, w4) \<Rightarrow>
                    if caught e then Some (handle_failure u f e w4) else Some (Raised e, w4)))
          = Some (r, w')"
      by (auto simp: download_file_def Let_def split: if_splits)
    then obtain fl w3 where
      ls: "locked_section D S u p f (add_lock f (init_attempt u w)) = Some (fl, w3)"
      by (auto split: option.splits)
    show ?thesis
    proof (cases fl)
      case Return
      then show ?thesis using k ls Inr False by simp
    next
      case (Raise e)
      then show ?thesis using k ls Inr False by (auto split: if_splits)
    next
      case (Next final)
      obtain r4 w4 where rf: "rename_file final p w3 = (r4, w4)"
        by (cases "rename_file final p w3")
      show ?thesis
      proof (cases r4)
        case Returned
        then show ?thesis using k ls Inr False Next rf by simp
      next
        case (Raised e)
        then show ?thesis using k ls Inr False Next rf by (auto split: if_splits)
      qed
    qed
  qed
qed

lemma add_lock_init_facts:
  "trace (add_lock f (init_attempt u w)) = trace w @ [AddLock f]"
  "ledger (add_lock f (init_attempt u w)) = ledger w"
  "locked_files (add_lock f (init_attempt u w)) = insert f (locked_files w)"
  "file_exists f (add_lock f (init_attempt u w)) = file_exists f w"
  "st_size f (add_lock f (init_attempt u w)) = st_size f w"
  by (simp_all add: add_lock_def init_attempt_def file_exists_def st_size_def)

lemma remove_lock_facts:
  "trace (remove_lock f w) = trace w @ [RemoveLock f]"
  "ledger (remove_lock f w) = ledger w"
  by (simp_all add: remove_lock_def)

text \<open>
  The traces a call of \<^verbatim>\<open>download_file\<close> can leave, and the ledger after it.
\<close>

lemma download_file_shape:
  assumes "download_file D S f u w = Some (r, w')"
  shows "\<exists>evs. trace w' = trace w @ evs \<and> ledger w' = last (ledger_states (ledger w) evs) \<and>
     (evs = [] \<or> (\<exists>p. db_path_of u = Inr p \<and> \<not> sql_check_existing p w \<and>
        (evs = [AddLock f] \<or> evs = [AddLock f, RemoveLock f]
         \<or> (evs = [AddLock f, InsertFile p f True] \<and> file_exists f w
             \<and> get_filesize S u = Inr (int (st_size f w)))
         \<or> (\<exists>final. evs = [AddLock f, InsertFile p final False, UpdateFile p final])
         \<or> (\<exists>final a rest.
               evs = [AddLock f, InsertFile p final False, InsertTemp (part_name final),
                      SessionDownload a] @ rest
               \<and> dl_original a = f \<and> dl_final a = final \<and> dl_locks a = insert f (locked_files w)
               \<and> (rest = [] \<or> rest = [RemoveLock f]
                  \<or> rest = [RemoveFile (part_name final), UpdateFile p final, RemoveLock f]
                  \<or> rest = [RenameFile (part_name final) final, UpdateFile p final,
                             RemoveLock f])))))"
  using download_file_steps[OF assms]
proof (elim disjE exE conjE)
  assume "w' = init_attempt u w"
  then show ?thesis by (simp add: init_attempt_def)
next
  assume "w' = init_attempt u w"
  then show ?thesis by (simp add: init_attempt_def)
next
  fix p fl w3
  assume p: "db_path_of u = Inr p" "\<not> sql_check_existing p w"
    and ls: "locked_section D S u p f (add_lock f (init_attempt u w)) = Some (fl, w3)"
    and e: "fl = Return" "r = Returned" "w' = w3"
  from locked_section_shape[OF ls] e p show ?thesis
    by (auto simp: add_lock_init_facts update_conv')
next
  fix p fl w3 e
  assume p: "db_path_of u = Inr p" "\<not> sql_check_existing p w"
    and ls: "locked_section D S u p f (add_lock f (init_attempt u w)) = Some (fl, w3)"
    and e: "fl = Raise e"
      "if caught e then handle_failure u f e w3 = (r, w') else r = Raised e \<and> w' = w3"
  show ?thesis
  proof (cases "caught e")
    case True
    with e have "handle_failure u f e w3 = (r, w')" by simp
    from handle_failure_shape[OF this] locked_section_shape[OF ls] e(1) p show ?thesis
      by (auto simp: add_lock_init_facts update_conv')
  next
    case False
    with e have "w' = w3" by simp
    with locked_section_shape[OF ls] e(1) p show ?thesis
      by (auto simp: add_lock_init_facts update_conv')
  qed
next
  fix p fl w3 final r4 w4
  assume p: "db_path_of u = Inr p" "\<not> sql_check_existing p w"
    and ls: "locked_section D S u p f (add_lock f (init_attempt u w)) = Some (fl, w3)"
    and n: "fl = Next final" and rf: "rename_file final p w3 = (r4, w4)"
    and e: "r4 = Returned" "r = Returned" "w' = remove_lock f w4"
  from locked_section_shape[OF ls] rename_file_shape[OF rf] n e p show ?thesis
    by (auto simp: add_lock_init_facts remove_lock_facts update_conv')
next
  fix p fl w3 final r4 w4 e
  assume p: "db_path_of u = Inr p" "\<not> sql_check_existing p w"
    and ls: "locked_section D S u p f (add_lock f (init_attempt u w)) = Some (fl, w3)"
    and n: "fl = Next final" and rf: "rename_file final p w3 = (r4, w4)"
    and e: "r4 = Raised e"
      "if caught e then handle_failure u f e w4 = (r, w') else r = Raised e \<and> w' = w4"
  from rename_file_shape[OF rf] e(1) have w4: "w4 = w3" and fn: "e = FileNotFoundError" by auto
  with e have "w' = w3" by simp
  with locked_section_shape[OF ls] n p show ?thesis
    by (auto simp: add_lock_init_facts update_conv')
qed


subsection \<open>The lock protocol\<close>






subsection \<open>Runs on the example inputs\<close>

text \<open>
  Two complete runs of \<^verbatim>\<open>download_file\<close>, evaluated: one into a folder that
  already holds an unrelated \<open>a.jpg\<close>, one into an empty folder.
\<close>

lemmas eval_defs = download_file_def init_attempt_def db_path_of_def sql_check_existing_def
  lock_wait_free check_lock_def add_lock_def remove_lock_def locked_section_def file_exists_def
  transfer_def sql_insert_file_def sql_update_file_def sql_insert_temp_def size_check_def
  st_size_def rename_file_def handle_failure_def resolve_name_def get_download_filename_def
  name_loop_step name_taken_def check_filename_def path_stem_def after_last_dot_def
  before_last_dot_def str_nat.simps part_name_def str_url_def
  example_downloader_def example_url_def empty_world_def no_session_def occupied_world_def
  occupied_twice_world_def sized_session_def Let_def

lemma collision_run:
  "map_option (\<lambda>(r, w). (r, trace w))
     (download_file example_downloader (sized_session 20) ''a.jpg'' example_url occupied_world)
   = Some (Returned,
       [AddLock ''a.jpg'', InsertFile ''/a.jpg'' ''a (1).jpg'' False,
        InsertTemp ''a (1).jpg.part'',
        SessionDownload \<lparr>dl_url = example_url, dl_range = None, dl_original = ''a.jpg'',
          dl_final = ''a (1).jpg'', dl_temp = ''a (1).jpg.part'', dl_resume = 0,
          dl_locks = {''a.jpg''}\<rparr>,
        RenameFile ''a (1).jpg.part'' ''a (1).jpg'', UpdateFile ''/a.jpg'' ''a (1).jpg'',
        RemoveLock ''a.jpg''])"
  by (simp add: eval_defs)


section \<open>Properties\<close>

subsection \<open>Mutual exclusion on a file name\<close>



subsection \<open>Release of the lock on every exit\<close>

text \<open>
  C2 fails on the code. The two returns inside the locked body, line 136 (the
  mark-downloaded mode) and line 116 (a complete file of the reported size), leave
  \<^verbatim>\<open>download_file\<close> without a call of \<^verbatim>\<open>remove_lock\<close>: the call returns, the
  name is still in the registry, and the trace holds no release. The success path
  (line 158) and the handler (line 164) do release.
\<close>

theorem lock_leak:
  "map_option (\<lambda>(r, w). (r, locked_files w, trace w))
     (download_file (example_downloader\<lparr>mark_downloaded := True\<rparr>) no_session ''a.jpg''
        example_url empty_world)
   = Some (Returned, {''a.jpg''},
       [AddLock ''a.jpg'', InsertFile ''/a.jpg'' ''a.jpg'' False, UpdateFile ''/a.jpg'' ''a.jpg''])
   \<and> map_option (\<lambda>(r, w). (r, locked_files w, trace w))
     (download_file example_downloader (sized_session 10) ''a.jpg'' example_url occupied_world)
   = Some (Returned, {''a.jpg''}, [AddLock ''a.jpg'', InsertFile ''/a.jpg'' ''a.jpg'' True])"
  by (simp add: download_file_def init_attempt_def db_path_of_def sql_check_existing_def
      lock_wait_free check_lock_def add_lock_def locked_section_def file_exists_def
      transfer_def sql_insert_file_def sql_update_file_def size_check_def st_size_def
      example_downloader_def example_url_def empty_world_def no_session_def
      occupied_world_def sized_session_def part_name_def str_url_def Let_def)

subsection \<open>The retry ceiling\<close>

lemma failing_action_always_fails: "always_fails failing_action"
  by (auto simp: always_fails_def failing_action_def init_attempt_def)

lemma always_fails_step:
  assumes "always_fails f"
  shows "\<exists>c w1. f u (w\<lparr>invoked := invoked w @ [u]\<rparr>) = Some (Raised (FailureException c), w1)
     \<and> invoked w1 = invoked w @ [u]
     \<and> current_attempt w1 = current_attempt (init_attempt u (w\<lparr>invoked := invoked w @ [u]\<rparr>))"
proof -
  from assms have "\<exists>c w1. f u (w\<lparr>invoked := invoked w @ [u]\<rparr>) = Some (Raised (FailureException c), w1)
     \<and> invoked w1 = invoked (w\<lparr>invoked := invoked w @ [u]\<rparr>)
     \<and> current_attempt w1 = current_attempt (init_attempt u (w\<lparr>invoked := invoked w @ [u]\<rparr>))"
    unfolding always_fails_def by blast
  then show ?thesis by simp
qed

text \<open>
  With the limit on, an action that always fails is invoked once for every value the
  counter of an unchanged URL has left below the number of attempts.
\<close>

lemma retry_counts:
  assumes f: "always_fails f" and lim: "\<not> disable_attempt_limit D"
    and unchanged: "mirror_substitute F u = u"
  shows "nat (attempts D - 1 - n) = k \<Longrightarrow> n \<le> attempts D - 1
     \<Longrightarrow> current_attempt w (str_url u) = Some n \<or> (current_attempt w (str_url u) = None \<and> n = 0)
     \<Longrightarrow> \<exists>c w'. retry D F f u w = Some (Raised (FailureException c), w')
           \<and> invoked w' = invoked w @ replicate (Suc k) u
           \<and> current_attempt w' (str_url u) = Some (attempts D - 1)"
proof (induction k arbitrary: n w)
  case 0
  from always_fails_step[OF f, of u w] obtain c w1 where
    s: "f u (w\<lparr>invoked := invoked w @ [u]\<rparr>) = Some (Raised (FailureException c), w1)"
    and i: "invoked w1 = invoked w @ [u]"
    and a: "current_attempt w1 = current_attempt (init_attempt u (w\<lparr>invoked := invoked w @ [u]\<rparr>))"
    by blast
  have n: "n = attempts D - 1" using 0 by simp
  have c1: "current_attempt w1 (str_url u) = Some n"
    using a 0(3) by (auto simp: init_attempt_def)
  have "retry D F f u w = Some (Raised (FailureException c), w1)"
    using s c1 n lim by (subst retry.simps) simp
  then show ?case using i c1 n by simp
next
  case (Suc k)
  from always_fails_step[OF f, of u w] obtain c w1 where
    s: "f u (w\<lparr>invoked := invoked w @ [u]\<rparr>) = Some (Raised (FailureException c), w1)"
    and i: "invoked w1 = invoked w @ [u]"
    and a: "current_attempt w1 = current_attempt (init_attempt u (w\<lparr>invoked := invoked w @ [u]\<rparr>))"
    by blast
  have n: "n < attempts D - 1" using Suc(2) by simp
  have c1: "current_attempt w1 (str_url u) = Some n"
    using a Suc(4) by (auto simp: init_attempt_def)
  let ?w2 = "w1\<lparr>current_attempt := (current_attempt w1)(str_url u \<mapsto> n + 1)\<rparr>"
  have step: "retry D F f u w = retry D F f u ?w2"
    using s c1 n lim unchanged by (subst retry.simps) simp
  have "\<exists>c w'. retry D F f u ?w2 = Some (Raised (FailureException c), w')
           \<and> invoked w' = invoked ?w2 @ replicate (Suc k) u
           \<and> current_attempt w' (str_url u) = Some (attempts D - 1)"
    by (rule Suc.IH[of "n + 1"]) (use Suc(2) n in auto)
  then show ?case using step i by (auto simp: replicate_append_same)
qed

text \<open>
  C3, as the code has it. With three attempts and the limit on, an action that always
  fails is invoked exactly three times on a URL that the rewrite leaves unchanged and
  whose counter is absent or 0; then the failure leaves the wrapper. The counter is
  incremented on the two failures that lead to a retry, not on the last one, and ends
  at 2.
\<close>

theorem retry_ceiling:
  assumes "always_fails f" and "attempts D = 3" and "\<not> disable_attempt_limit D"
    and "mirror_substitute F u = u"
    and "current_attempt w (str_url u) = None \<or> current_attempt w (str_url u) = Some 0"
  shows "\<exists>c w'. retry D F f u w = Some (Raised (FailureException c), w')
           \<and> invoked w' = invoked w @ [u, u, u]
           \<and> current_attempt w' (str_url u) = Some 2"
proof -
  have k: "nat (attempts D - 1 - 0) = 2" and n: "0 \<le> attempts D - 1" using assms(2) by simp_all
  have c: "current_attempt w (str_url u) = Some 0 \<or> (current_attempt w (str_url u) = None \<and> (0::int) = 0)"
    using assms(5) by auto
  from retry_counts[OF assms(1) assms(3) assms(4) k n c] show ?thesis
    using assms(2) by (simp add: numeral_2_eq_2 numeral_3_eq_3)
qed

text \<open>
  The action that only fails, on \<open>https://example.com/a.jpg\<close>: three invocations.
\<close>

theorem retry_ceiling_witness:
  "\<exists>c w'. retry example_downloader example_formats failing_action
             \<lparr>scheme = ''https'', host = ''example.com'', path = ''/a.jpg''\<rparr> empty_world
           = Some (Raised (FailureException c), w')
         \<and> invoked w' = [\<lparr>scheme = ''https'', host = ''example.com'', path = ''/a.jpg''\<rparr>,
                          \<lparr>scheme = ''https'', host = ''example.com'', path = ''/a.jpg''\<rparr>,
                          \<lparr>scheme = ''https'', host = ''example.com'', path = ''/a.jpg''\<rparr>]
         \<and> current_attempt w' ''https://example.com/a.jpg'' = Some 2"
proof -
  let ?u = "\<lparr>scheme = ''https'', host = ''example.com'', path = ''/a.jpg''\<rparr>"
  have h2: "attempts example_downloader = 3" by (simp add: example_downloader_def)
  have h3: "\<not> disable_attempt_limit example_downloader" by (simp add: example_downloader_def)
  have h4: "mirror_substitute example_formats ?u = ?u" by (simp add: mirror_substitute_def)
  have h5: "current_attempt empty_world (str_url ?u) = None \<or> current_attempt empty_world (str_url ?u) = Some 0"
    by (simp add: empty_world_def)
  show ?thesis
    using retry_ceiling[OF failing_action_always_fails h2 h3 h4 h5]
    by (simp add: empty_world_def str_url_def)
qed

text \<open>
  The property as the specification states it, for every URL, fails for a URL that
  the rewrite changes: the counter is keyed by the text of the URL, so the rewritten
  URL starts again at 0 and the action is invoked four times.
\<close>

theorem retry_ceiling_counterexample:
  "map_option (\<lambda>(r, w). (r, map str_url (invoked w)))
     (retry example_downloader example_formats failing_action
        \<lparr>scheme = ''https'', host = ''fs-05.cyberdrop.to'', path = ''/a.jpg''\<rparr> empty_world)
   = Some (Raised (FailureException 1),
       [''https://fs-05.cyberdrop.to/a.jpg'', ''https://img-01.cyberdrop.to/a.jpg'',
        ''https://img-01.cyberdrop.to/a.jpg'', ''https://img-01.cyberdrop.to/a.jpg''])"
  by (simp add: retry.simps failing_action_def init_attempt_def example_downloader_def
      example_formats_def empty_world_def mirror_substitute_def with_host_def str_url_def
      url_name_def after_last_dot_def)

text \<open>
  Whatever the table of image formats holds, that URL is rewritten (to the image
  node, or from \<open>fs-05.\<close> to \<open>fs-04.\<close>) and the action is invoked four times.
\<close>

lemma retry_rewritten_url_any_formats:
  "map_option (\<lambda>(r, w). (r, length (invoked w)))
     (retry example_downloader F failing_action
        \<lparr>scheme = ''https'', host = ''fs-05.cyberdrop.to'', path = ''/a.jpg''\<rparr> empty_world)
   = Some (Raised (FailureException 1), 4)"
proof (cases "''.jpg'' \<in> Images F")
  case True
  then show ?thesis
    by (simp add: retry.simps failing_action_def init_attempt_def example_downloader_def
      empty_world_def mirror_substitute_def with_host_def str_url_def
      url_name_def after_last_dot_def)
next
  case False
  then show ?thesis
    by (simp add: retry.simps failing_action_def init_attempt_def example_downloader_def
      empty_world_def mirror_substitute_def with_host_def str_url_def parse_url_def
      url_name_def after_last_dot_def Let_def)
qed

subsection \<open>The states of a path in the ledger\<close>








subsection \<open>No transfer for what is already there\<close>



subsection \<open>The factory's worker cap\<close>

lemma album_downloaders_Inr:
  "0 \<le> m \<Longrightarrow> \<exists>ds. album_downloaders m rt albums = Inr ds
     \<and> map (\<lambda>d. (title d, album_obj d, max_workers d)) ds = map (\<lambda>(t, a). (t, a, m)) albums"
  by (induction albums) (auto simp: Downloader_init_def)

text \<open>
  C6, as the code has it. For a global cap that is not negative, the factory returns
  one Downloader per (host, collection) pair, in order, and its cap is the smaller of
  2 and the global cap when the host is a known-strict one, the global cap otherwise.
  The cap of a strict host is therefore 2 exactly when the global cap is at least 2.
\<close>

theorem worker_cap:
  assumes "0 \<le> mw"
  shows "\<exists>ds. get_downloaders cascade mw rt = Inr ds
     \<and> map (\<lambda>d. (title d, album_obj d, max_workers d)) ds
       = concat (map (\<lambda>(domain, albums).
            map (\<lambda>(t, a). (t, a, if strict_host domain then min 2 mw else mw)) albums) cascade)"
proof (induction cascade)
  case Nil
  show ?case by simp
next
  case (Cons da rest)
  obtain domain albums where da: "da = (domain, albums)" by (cases da)
  let ?m = "if strict_host domain then (if mw > 2 then 2 else mw) else mw"
  have m0: "0 \<le> ?m" using assms by simp
  have meq: "?m = (if strict_host domain then min 2 mw else mw)" by (simp add: min_def)
  from album_downloaders_Inr[OF m0, of rt albums] obtain ds1 where
    d1: "album_downloaders ?m rt albums = Inr ds1"
    and m1: "map (\<lambda>d. (title d, album_obj d, max_workers d)) ds1 = map (\<lambda>(t, a). (t, a, ?m)) albums"
    by blast
  from Cons obtain ds2 where
    d2: "get_downloaders rest mw rt = Inr ds2"
    and m2: "map (\<lambda>d. (title d, album_obj d, max_workers d)) ds2
       = concat (map (\<lambda>(domain, albums).
            map (\<lambda>(t, a). (t, a, if strict_host domain then min 2 mw else mw)) albums) rest)"
    by blast
  have "get_downloaders (da # rest) mw rt = Inr (ds1 @ ds2)"
    using d1 d2 by (simp add: da strict_host_def)
  moreover have "map (\<lambda>d. (title d, album_obj d, max_workers d)) (ds1 @ ds2)
       = concat (map (\<lambda>(domain, albums).
            map (\<lambda>(t, a). (t, a, if strict_host domain then min 2 mw else mw)) albums) (da # rest))"
    using m1 m2 meq by (simp add: da)
  ultimately show ?case by blast
qed

text \<open>
  The example of the specification: host \<open>bunkr.is\<close> and a global cap of 10 give 2.
\<close>

theorem worker_cap_witness:
  "\<exists>ds. get_downloaders [(''bunkr.is'', [(''album'', [])])] 10
          \<lparr>rt_attempts = 3, rt_disable_attempt_limit = False, rt_mark_downloaded = False\<rparr> = Inr ds
     \<and> map (\<lambda>d. (title d, album_obj d, max_workers d)) ds = [(''album'', [], 2)]"
proof -
  have h: "(0::int) \<le> 10" by simp
  have s: "strict_host ''bunkr.is''" by (simp add: strict_host_def)
  show ?thesis
    using worker_cap[OF h, of "[(''bunkr.is'', [(''album'', [])])]"
        "\<lparr>rt_attempts = 3, rt_disable_attempt_limit = False, rt_mark_downloaded = False\<rparr>"] s
    by simp
qed

text \<open>
  A cap of 2 regardless of the global cap fails: with a global cap of 1 the
  Downloader of the strict host \<open>bunkr.is\<close> gets the cap 1 (line 298 only lowers a
  cap above 2).
\<close>

theorem worker_cap_counterexample:
  "strict_host ''bunkr.is'' \<and>
   map_sum id (map max_workers)
     (get_downloaders [(''bunkr.is'', [(''album'', [])])] 1
        \<lparr>rt_attempts = 3, rt_disable_attempt_limit = False, rt_mark_downloaded = False\<rparr>) = Inr [1]"
  by (simp add: strict_host_def Downloader_init_def)

subsection \<open>The rewrite of the URL between attempts\<close>

text \<open>
  C7, as the code has it. Only a URL whose host contains \<open>cyberdrop\<close> is rewritten:
  with an image extension its host becomes \<open>img-01.cyberdrop.to\<close>; otherwise every
  \<open>fs-05.\<close> in the text of the URL (scheme, host and path) becomes \<open>fs-04.\<close>. Any
  other URL is retried as it is.
\<close>

theorem mirror_substitute_cases:
  assumes "well_formed_url u"
  shows "mirror_substitute F u =
     (if is_substr ''cyberdrop'' (host u)
      then (if ''.'' @ after_last_dot (url_name u) \<in> Images F
            then u\<lparr>host := ''img-01.cyberdrop.to''\<rparr>
            else \<lparr>scheme = replace_str ''fs-05.'' ''fs-04.'' (scheme u),
                  host = replace_str ''fs-05.'' ''fs-04.'' (host u),
                  path = replace_str ''fs-05.'' ''fs-04.'' (path u)\<rparr>)
      else u)"
  using replace_url_text[OF assms] by (simp add: mirror_substitute_def with_host_def Let_def)

text \<open>
  A video on \<open>fs-05.cyberdrop.to\<close> moves to \<open>fs-04.cyberdrop.to\<close>.
\<close>

theorem mirror_substitute_cases_witness:
  "mirror_substitute example_formats \<lparr>scheme = ''https'', host = ''fs-05.cyberdrop.to'', path = ''/v.mp4''\<rparr>
     = \<lparr>scheme = ''https'', host = ''fs-04.cyberdrop.to'', path = ''/v.mp4''\<rparr>"
proof -
  have wf: "well_formed_url \<lparr>scheme = ''https'', host = ''fs-05.cyberdrop.to'', path = ''/v.mp4''\<rparr>"
    by (simp add: well_formed_url_def)
  show ?thesis
    using mirror_substitute_cases[OF wf, of example_formats]
    by (simp add: example_formats_def url_name_def after_last_dot_def)
qed

text \<open>
  The rewrite as the specification states it fails twice. A host that contains the
  token \<open>fs-05.\<close> but not \<open>cyberdrop\<close> is not rewritten; and under a
  \<open>cyberdrop\<close> host the token is rewritten in the path although the host does not
  contain it.
\<close>

theorem mirror_substitute_counterexample:
  "is_substr ''fs-05.'' (host \<lparr>scheme = ''https'', host = ''fs-05.example.com'', path = ''/v.mp4''\<rparr>)
   \<and> mirror_substitute example_formats \<lparr>scheme = ''https'', host = ''fs-05.example.com'', path = ''/v.mp4''\<rparr>
       = \<lparr>scheme = ''https'', host = ''fs-05.example.com'', path = ''/v.mp4''\<rparr>
   \<and> \<not> is_substr ''fs-05.'' (host \<lparr>scheme = ''https'', host = ''cyberdrop.me'', path = ''/fs-05.mp4''\<rparr>)
   \<and> mirror_substitute example_formats \<lparr>scheme = ''https'', host = ''cyberdrop.me'', path = ''/fs-05.mp4''\<rparr>
       = \<lparr>scheme = ''https'', host = ''cyberdrop.me'', path = ''/fs-04.mp4''\<rparr>"
  by (simp add: mirror_substitute_def example_formats_def url_name_def after_last_dot_def
      str_url_def parse_url_def Let_def)

subsection \<open>Collision resolution\<close>

text \<open>
  C8, as the code has it. When the candidate name is occupied by a complete or a
  partial file, the complete file (if any) is not of the size the server reports, and
  the ledger has no name for the path, the name resolved is \<open>stem (n).ext\<close> for the first \<open>n \<ge> 1\<close>
  that is neither a file of the folder nor a name of the ledger, and the body goes on
  to the transfer under that name.
\<close>

theorem collision_resolution:
  assumes "file_exists filename w \<or> file_exists (part_name filename) w"
    and "file_exists filename w \<longrightarrow>
           (\<exists>total_size. get_filesize S u = Inr total_size \<and> total_size \<noteq> int (st_size filename w))"
    and "get_download_filename db_path w = None"
  shows "\<exists>n\<ge>1. \<not> name_taken (numbered_name filename n) w
     \<and> (\<forall>m. 1 \<le> m \<and> m < n \<longrightarrow> name_taken (numbered_name filename m) w)
     \<and> resolve_name db_path filename w = Some (numbered_name filename n)
     \<and> locked_section D S u db_path filename w
         = Some (transfer D S u db_path filename (numbered_name filename n) w)"
proof -
  from resolve_name_first_free[OF assms(3), of filename] obtain n where
    n: "1 \<le> n" "\<not> name_taken (numbered_name filename n) w"
      "\<forall>m. 1 \<le> m \<and> m < n \<longrightarrow> name_taken (numbered_name filename m) w"
      "resolve_name db_path filename w = Some (numbered_name filename n)"
    by blast
  have sc: "size_check S u db_path filename w = (Next filename, w)"
    using assms(2) by (auto simp: size_check_def)
  have "locked_section D S u db_path filename w
         = Some (transfer D S u db_path filename (numbered_name filename n) w)"
    using assms(1) sc n(4) by (simp add: locked_section_def)
  with n show ?thesis by blast
qed

text \<open>
  The examples of the specification: an occupied \<open>a.jpg\<close> resolves to
  \<open>a (1).jpg\<close>, and to \<open>a (2).jpg\<close> when that name is taken as well.
\<close>

theorem collision_resolution_witness:
  "(\<exists>n\<ge>1. \<not> name_taken (numbered_name ''a.jpg'' n) occupied_twice_world
       \<and> resolve_name ''/a.jpg'' ''a.jpg'' occupied_twice_world = Some (numbered_name ''a.jpg'' n)
       \<and> locked_section example_downloader (sized_session 20) example_url ''/a.jpg'' ''a.jpg''
           occupied_twice_world
         = Some (transfer example_downloader (sized_session 20) example_url ''/a.jpg'' ''a.jpg''
                   (numbered_name ''a.jpg'' n) occupied_twice_world))
   \<and> resolve_name ''/a.jpg'' ''a.jpg'' occupied_world = Some ''a (1).jpg''
   \<and> resolve_name ''/a.jpg'' ''a.jpg'' occupied_twice_world = Some ''a (2).jpg''"
proof -
  have h1: "file_exists ''a.jpg'' occupied_twice_world
      \<or> file_exists (part_name ''a.jpg'') occupied_twice_world"
    by (simp add: file_exists_def occupied_twice_world_def empty_world_def)
  have h2: "file_exists ''a.jpg'' occupied_twice_world \<longrightarrow>
      (\<exists>total_size. get_filesize (sized_session 20) example_url = Inr total_size
         \<and> total_size \<noteq> int (st_size ''a.jpg'' occupied_twice_world))"
    by (simp add: st_size_def occupied_twice_world_def empty_world_def sized_session_def)
  have h3: "get_download_filename ''/a.jpg'' occupied_twice_world = None"
    by (simp add: get_download_filename_def occupied_twice_world_def empty_world_def)
  have e1: "resolve_name ''/a.jpg'' ''a.jpg'' occupied_world = Some ''a (1).jpg''"
    by (simp add: eval_defs)
  have e2: "resolve_name ''/a.jpg'' ''a.jpg'' occupied_twice_world = Some ''a (2).jpg''"
    by (simp add: eval_defs)
  from collision_resolution[OF h1 h2 h3, of example_downloader] e1 e2
  show ?thesis by blast
qed

text \<open>
  Without the condition on the size the property fails: an occupied \<open>a.jpg\<close> that
  has the size the server reports, with no name in the ledger for the path, is taken
  for the file of the link. Lines 111-116 record it as completed under \<open>a.jpg\<close>
  and return; no numbered name is resolved.
\<close>

theorem collision_resolution_counterexample:
  "file_exists ''a.jpg'' occupied_world
   \<and> get_download_filename ''/a.jpg'' occupied_world = None
   \<and> map_option (\<lambda>(fl, w). (fl, trace w))
        (locked_section example_downloader (sized_session 10) example_url ''/a.jpg'' ''a.jpg''
           occupied_world)
       = Some (Return, [InsertFile ''/a.jpg'' ''a.jpg'' True])
   \<and> map_option (\<lambda>(r, w). (r, ledger w))
        (download_file example_downloader (sized_session 10) ''a.jpg'' example_url occupied_world)
       = Some (Returned, [(''/a.jpg'', ''a.jpg'', True)])"
  by (simp add: eval_defs)

subsection \<open>The length limit of get\_filename\<close>

text \<open>
  When the stem alone reaches the limit, lines 204-206 do cut the stem and put the
  extension back.
\<close>

lemma truncate_long_stem:
  assumes "CHR ''.'' \<notin> set ext" and "maxlen \<le> length stem"
  shows "truncate_filename maxlen (stem @ ''.'' @ ext) = take maxlen stem @ ''.'' @ ext"
  using assms by (simp add: truncate_filename_def after_last_dot_append)

lemma truncate_long_stem_example:
  "truncate_filename 6 ''aaaaaaaa.jpg'' = ''aaaaaa.jpg''"
proof -
  have h1: "CHR ''.'' \<notin> set ''jpg''" by simp
  have h2: "(6::nat) \<le> length ''aaaaaaaa''" by simp
  show ?thesis using truncate_long_stem[OF h1 h2] by simp
qed

text \<open>
  Whatever the limit is: when the stem is shorter than the limit and the name is
  longer, the cut takes a piece of the extension along, and the result is no
  truncation of the stem followed by the extension.
\<close>

lemma truncate_cut_in_extension:
  assumes "CHR ''.'' \<notin> set ext" and "length stem < limit"
    and "limit < length (stem @ ''.'' @ ext)"
  shows "truncate_filename limit (stem @ ''.'' @ ext)
           = stem @ take (limit - length stem) (''.'' @ ext) @ ''.'' @ ext"
    and "\<not> truncated_stem_with_ext stem ext (truncate_filename limit (stem @ ''.'' @ ext))"
proof -
  show "truncate_filename limit (stem @ ''.'' @ ext)
           = stem @ take (limit - length stem) (''.'' @ ext) @ ''.'' @ ext"
    using assms by (simp add: truncate_filename_def after_last_dot_append)
  have len: "length (truncate_filename limit (stem @ ''.'' @ ext)) = limit + 1 + length ext"
    using assms by (simp add: truncate_filename_def after_last_dot_append)
  show "\<not> truncated_stem_with_ext stem ext (truncate_filename limit (stem @ ''.'' @ ext))"
  proof
    assume "truncated_stem_with_ext stem ext (truncate_filename limit (stem @ ''.'' @ ext))"
    then obtain p where p: "prefix p stem"
      and r: "truncate_filename limit (stem @ ''.'' @ ext) = p @ ''.'' @ ext"
      by (auto simp: truncated_stem_with_ext_def)
    from p have "length p \<le> length stem" by (rule prefix_length_le)
    moreover from r len have "length p = limit" by simp
    ultimately show False using assms(2) by simp
  qed
qed

text \<open>
  C9 fails on the code. Lines 204-206 cut the whole name, not the stem: for a name
  whose stem is shorter than the limit the cut falls inside the extension, and the
  result is no truncation of the stem followed by the extension. With a limit of 6,
  \<open>aaaa.jpg\<close> (8 characters) is resolved to \<open>aaaa.j.jpg\<close>.
\<close>

theorem truncate_short_stem:
  "length ''aaaa.jpg'' > 6
   \<and> get_filename \<lparr>Images = {''.jpg''}, Videos = {}, Audio = {}, Other = {}\<rparr> 6 (\<lambda>s. s) no_session
        \<lparr>scheme = ''https'', host = ''example.com'', path = ''/aaaa.jpg''\<rparr> = Inr ''aaaa.j.jpg''
   \<and> \<not> truncated_stem_with_ext ''aaaa'' ''jpg'' ''aaaa.j.jpg''"
  by (simp add: get_filename_def truncate_filename_def url_name_def after_last_dot_def
      known_ext_def lower_def lower_char_def truncated_stem_with_ext_def)

subsection \<open>The lock is keyed by the original file name\<close>

text \<open>
  C10. In a call of \<^verbatim>\<open>download_file\<close> for \<open>filename\<close> every lock added and every
  lock removed is the one of \<open>filename\<close>, the name as it was before any
  disambiguation; the transfer is handed \<open>filename\<close> as the original name, and when
  it runs the registry holds what it held on entry and \<open>filename\<close>, nothing else. A
  final name other than \<open>filename\<close> that was not held on entry is therefore not held
  while it is written.
\<close>

theorem lock_keyed_by_original:
  assumes "download_file D S filename u w = Some (r, w')"
  shows "\<exists>evs. trace w' = trace w @ evs
     \<and> list_all (lock_event_ok filename (insert filename (locked_files w))) evs
     \<and> (\<forall>a. SessionDownload a \<in> set evs \<and> dl_final a \<noteq> filename
              \<and> dl_final a \<notin> locked_files w \<longrightarrow> dl_final a \<notin> dl_locks a)"
  using download_file_shape[OF assms] by auto

text \<open>
  The run into the occupied folder transfers to \<open>a (1).jpg\<close> while the only
  lock it ever takes or gives back is the one of \<open>a.jpg\<close>.
\<close>

theorem lock_keyed_by_original_witness:
  "\<exists>w'. download_file example_downloader (sized_session 20) ''a.jpg'' example_url occupied_world
          = Some (Returned, w')
     \<and> list_all (lock_event_ok ''a.jpg'' {''a.jpg''}) (trace w')
     \<and> map dl_final (concat (map (\<lambda>e. case e of SessionDownload a \<Rightarrow> [a] | _ \<Rightarrow> []) (trace w')))
         = [''a (1).jpg'']"
proof -
  from collision_run obtain w' where
    d: "download_file example_downloader (sized_session 20) ''a.jpg'' example_url occupied_world
          = Some (Returned, w')"
    and t: "map dl_final (concat (map (\<lambda>e. case e of SessionDownload a \<Rightarrow> [a] | _ \<Rightarrow> []) (trace w')))
         = [''a (1).jpg'']"
    by (cases "download_file example_downloader (sized_session 20) ''a.jpg'' example_url
          occupied_world") auto
  from lock_keyed_by_original[OF d]
  have k: "list_all (lock_event_ok ''a.jpg'' {''a.jpg''}) (trace w')"
    by (simp add: occupied_world_def empty_world_def)
  show ?thesis by (rule exI[of _ w']) (use d t k in simp)
qed

end
